theory Spec2Isabelle
  imports Main "HOL-Library.Sublist"
begin

section \<open>Python values used by the backend\<close>

text \<open>
  Strings are lists of characters. The model covers ASCII text: \<open>str.lower\<close> maps
  \<open>A\<close>..\<open>Z\<close> to \<open>a\<close>..\<open>z\<close> and leaves every other character alone, \<open>\w\<close> is
  \<open>[a-zA-Z0-9_]\<close>, and the whitespace of \<open>str.split()\<close> is the ASCII whitespace
  (codes 9 to 13, 28 to 31 and 32). \<open>keyword in query\<close> is the contiguous-sublist test
  \<^const>\<open>sublist\<close>.
\<close>

datatype py_error = KeyError | TypeError | UpstreamError

definition is_upper :: "char \<Rightarrow> bool" where
  "is_upper c = (65 \<le> (of_char c :: nat) \<and> (of_char c :: nat) \<le> 90)"

definition is_lower :: "char \<Rightarrow> bool" where
  "is_lower c = (97 \<le> (of_char c :: nat) \<and> (of_char c :: nat) \<le> 122)"

definition is_digit :: "char \<Rightarrow> bool" where
  "is_digit c = (48 \<le> (of_char c :: nat) \<and> (of_char c :: nat) \<le> 57)"

definition is_alpha :: "char \<Rightarrow> bool" where
  "is_alpha c = (is_lower c \<or> is_upper c)"

definition is_word :: "char \<Rightarrow> bool" where
  "is_word c = (is_lower c \<or> is_upper c \<or> is_digit c \<or> c = CHR ''_'')"

definition is_word_or_dot :: "char \<Rightarrow> bool" where
  "is_word_or_dot c = (is_word c \<or> c = CHR ''.'')"

definition is_space :: "char \<Rightarrow> bool" where
  "is_space c = ((9 \<le> (of_char c :: nat) \<and> (of_char c :: nat) \<le> 13)
                 \<or> (28 \<le> (of_char c :: nat) \<and> (of_char c :: nat) \<le> 32))"

definition lower_char :: "char \<Rightarrow> char" where
  "lower_char c = (if is_upper c then char_of ((of_char c :: nat) + 32) else c)"

definition lower :: "string \<Rightarrow> string" where
  "lower s = map lower_char s"

text \<open>\<open>str.split()\<close> with no argument: maximal runs of non-whitespace, no empty words.\<close>

fun split_acc :: "string \<Rightarrow> string \<Rightarrow> string list" where
  "split_acc w [] = (if w = [] then [] else [w])"
| "split_acc w (c # cs) =
     (if is_space c then (if w = [] then split_acc [] cs else w # split_acc [] cs)
      else split_acc (w @ [c]) cs)"

definition py_split :: "string \<Rightarrow> string list" where
  "py_split s = split_acc [] s"

section \<open>Regular expressions of \<open>_assess_specificity\<close>\<close>

text \<open>
  The two patterns use character classes, greedy \<open>*\<close> and \<open>+\<close> over a class, literals,
  \<open>\b\<close>, sequence and alternation. A cursor is the character before the position (if
  any) and the text from the position on. \<open>m_ends r cur\<close> lists the cursors at which a
  match of \<open>r\<close> starting at \<open>cur\<close> can end, in the order a backtracking matcher tries
  them (greedy repetition gives the longest run first, alternation the left branch
  first); the match found is the head of the list.
\<close>

datatype regex =
    Cls "char \<Rightarrow> bool"
  | Lit char
  | Star "char \<Rightarrow> bool"
  | Plus "char \<Rightarrow> bool"
  | WordB
  | Seq regex regex
  | Alt regex regex

type_synonym cursor = "char option \<times> string"

fun run_of :: "(char \<Rightarrow> bool) \<Rightarrow> cursor \<Rightarrow> cursor list" where
  "run_of p (prev, []) = [(prev, [])]"
| "run_of p (prev, c # cs) =
     (if p c then run_of p (Some c, cs) @ [(prev, c # cs)] else [(prev, c # cs)])"

definition word_before :: "cursor \<Rightarrow> bool" where
  "word_before cur = (case fst cur of None \<Rightarrow> False | Some c \<Rightarrow> is_word c)"

definition word_after :: "cursor \<Rightarrow> bool" where
  "word_after cur = (case snd cur of [] \<Rightarrow> False | c # _ \<Rightarrow> is_word c)"

fun m_ends :: "regex \<Rightarrow> cursor \<Rightarrow> cursor list" where
  "m_ends (Cls p) cur =
     (case snd cur of [] \<Rightarrow> [] | c # cs \<Rightarrow> if p c then [(Some c, cs)] else [])"
| "m_ends (Lit x) cur =
     (case snd cur of [] \<Rightarrow> [] | c # cs \<Rightarrow> if c = x then [(Some c, cs)] else [])"
| "m_ends (Star p) cur = run_of p cur"
| "m_ends (Plus p) cur =
     (case snd cur of [] \<Rightarrow> [] | c # cs \<Rightarrow> if p c then run_of p (Some c, cs) else [])"
| "m_ends WordB cur = (if word_before cur \<noteq> word_after cur then [cur] else [])"
| "m_ends (Seq a b) cur = concat (map (m_ends b) (m_ends a cur))"
| "m_ends (Alt a b) cur = m_ends a cur @ m_ends b cur"

text \<open>
  \<open>re.findall\<close>: scan left to right; at a position with a match, record the matched text
  and go on from its end; otherwise move one character on. Both patterns of the source
  consume at least one character, so the rule for empty matches (record, move one
  character on) is never used by them.
\<close>

function findall_from :: "regex \<Rightarrow> cursor \<Rightarrow> string list" where
  "findall_from r (prev, rest) =
     (case m_ends r (prev, rest) of
        [] \<Rightarrow> (case rest of [] \<Rightarrow> [] | c # cs \<Rightarrow> findall_from r (Some c, cs))
      | e # _ \<Rightarrow>
          take (length rest - length (snd e)) rest #
            (if length (snd e) < length rest then findall_from r e
             else (case rest of [] \<Rightarrow> [] | c # cs \<Rightarrow> findall_from r (Some c, cs))))"
  by pat_completeness auto
termination
  by (relation "measure (\<lambda>(r, cur). length (snd cur))") auto

definition findall :: "regex \<Rightarrow> string \<Rightarrow> string list" where
  "findall r s = findall_from r (None, s)"

text \<open>\<^verbatim>\<open>\b[A-Z][a-z]*[A-Z][a-zA-Z]*\b\<close>\<close>

definition camel_case_re :: regex where
  "camel_case_re =
     Seq WordB (Seq (Cls is_upper) (Seq (Star is_lower)
       (Seq (Cls is_upper) (Seq (Star is_alpha) WordB))))"

text \<open>\<^verbatim>\<open>\b\w+\(\)|[\w\.]+\.\w+|\w+\[\]\<close>\<close>

definition code_pattern_re :: regex where
  "code_pattern_re =
     Alt (Seq WordB (Seq (Plus is_word) (Seq (Lit (CHR ''('')) (Lit (CHR '')'')))))
      (Alt (Seq (Plus is_word_or_dot) (Seq (Lit (CHR ''.'')) (Plus is_word)))
           (Seq (Plus is_word) (Seq (Lit (CHR ''['')) (Lit (CHR '']'')))))"

section \<open>QueryAnalyzer\<close>

definition summary_keywords :: "string list" where
  "summary_keywords =
     [''summary'', ''summarize'', ''overview'', ''explain'', ''describe'', ''what is'',
      ''tell me about'']"

definition analysis_keywords :: "string list" where
  "analysis_keywords =
     [''analyze'', ''analysis'', ''architecture'', ''pattern'', ''structure'', ''design'',
      ''flow'']"

definition bug_keywords :: "string list" where
  "bug_keywords =
     [''bug'', ''error'', ''issue'', ''problem'', ''fix'', ''debug'', ''vulnerability'',
      ''security'', ''improvements'']"

definition specific_keywords :: "string list" where
  "specific_keywords =
     [''function'', ''method'', ''class'', ''variable'', ''import'', ''specific'', ''find'']"

text \<open>\<open>any(keyword in query for keyword in keywords)\<close>\<close>

definition any_keyword_in :: "string list \<Rightarrow> string \<Rightarrow> bool" where
  "any_keyword_in keywords query = list_ex (\<lambda>keyword. sublist keyword query) keywords"

definition classify_intent :: "string \<Rightarrow> string" where
  "classify_intent query =
     (if any_keyword_in summary_keywords query then ''summary''
      else if any_keyword_in analysis_keywords query then ''analysis''
      else if any_keyword_in bug_keywords query then ''bug_check''
      else if any_keyword_in specific_keywords query then ''specific''
      else ''general'')"

definition question_word_list :: "string list" where
  "question_word_list = [''what'', ''how'', ''why'', ''when'', ''where'', ''which'']"

definition assess_complexity :: "string \<Rightarrow> string" where
  "assess_complexity query =
     (let word_count = length (py_split query);
          question_words = length (filter (\<lambda>w. w \<in> set question_word_list) (py_split query))
      in if word_count > 15 \<or> question_words > 2 then ''high''
         else if word_count > 8 \<or> question_words > 1 then ''medium''
         else ''low'')"

definition assess_specificity :: "string \<Rightarrow> string" where
  "assess_specificity query =
     (let specific_terms = length (findall camel_case_re query);
          code_patterns = length (findall code_pattern_re query)
      in if specific_terms > 2 \<or> code_patterns > 1 then ''high''
         else if specific_terms > 0 \<or> code_patterns > 0 then ''medium''
         else ''low'')"

text \<open>
  The table of \<open>_calculate_base_k\<close> is a dictionary of dictionaries:
  \<open>base_values.get(intent, default)[complexity]\<close> falls back to the default row for an
  unknown intent and raises \<open>KeyError\<close> for an unknown complexity.
\<close>

definition base_values :: "(string \<times> (string \<times> int) list) list" where
  "base_values =
     [(''specific'', [(''low'', 3), (''medium'', 5), (''high'', 8)]),
      (''general'', [(''low'', 5), (''medium'', 8), (''high'', 12)]),
      (''summary'', [(''low'', 8), (''medium'', 15), (''high'', 25)]),
      (''analysis'', [(''low'', 10), (''medium'', 18), (''high'', 30)]),
      (''bug_check'', [(''low'', 12), (''medium'', 20), (''high'', 35)])]"

definition default_row :: "(string \<times> int) list" where
  "default_row = [(''low'', 5), (''medium'', 8), (''high'', 12)]"

definition calculate_base_k :: "string \<Rightarrow> string \<Rightarrow> py_error + int" where
  "calculate_base_k intent complexity =
     (let row = (case map_of base_values intent of None \<Rightarrow> default_row | Some r \<Rightarrow> r)
      in case map_of row complexity of None \<Rightarrow> Inl KeyError | Some k \<Rightarrow> Inr k)"

record analysis =
  intent :: string
  complexity :: string
  specificity :: string
  base_k :: int
  should_rerank :: bool
  rerank_top_n :: int

definition rerank_intents :: "string list" where
  "rerank_intents = [''summary'', ''analysis'', ''bug_check'']"

definition analyze_query :: "string \<Rightarrow> py_error + analysis" where
  "analyze_query query =
     (let query_lower = lower query;
          intent_v = classify_intent query_lower;
          complexity_v = assess_complexity query_lower;
          specificity_v = assess_specificity query_lower
      in case calculate_base_k intent_v complexity_v of
           Inl e \<Rightarrow> Inl e
         | Inr k \<Rightarrow>
             (let rerank = (intent_v \<in> set rerank_intents)
              in Inr \<lparr>intent = intent_v, complexity = complexity_v,
                      specificity = specificity_v, base_k = k, should_rerank = rerank,
                      rerank_top_n = (if rerank then max 3 (k div 2) else k)\<rparr>))"

section \<open>EnhancedPineconeManager.smart_retrieve\<close>

text \<open>
  The vector index is an external service: \<open>self.index.search\<close> is a parameter that maps
  the search parameters to the ranked hits or to an exception. A hit carries its fields as
  the service returned them, so each may be missing; \<open>hit['fields']['chunk_text']\<close>
  raises \<open>KeyError\<close> when the chunk field is missing, the other fields have defaults. The
  score type is left open (the service returns a float, the default is \<open>0\<close>).
\<close>

record rerank_params =
  model :: string
  top_n :: int
  rank_fields :: "string list"

record search_params =
  sp_namespace :: string
  sp_query_inputs :: string
  sp_top_k :: int
  sp_fields :: "string list"
  sp_rerank :: "rerank_params option"

record 's hit =
  hit_chunk_text :: "string option"
  hit_file_name :: "string option"
  hit_file_path :: "string option"
  hit_language :: "string option"
  hit_score :: "'s option"

record 's chunk_info =
  chunk_text :: string
  file_name :: string
  file_path :: string
  language :: string
  score :: 's
  reranked :: bool

definition get_or :: "'a option \<Rightarrow> 'a \<Rightarrow> 'a" where
  "get_or v d = (case v of None \<Rightarrow> d | Some x \<Rightarrow> x)"

definition estimate_tokens :: "string \<Rightarrow> int" where
  "estimate_tokens chunk = int (length chunk) div 4"

definition processed_of :: "bool \<Rightarrow> string \<Rightarrow> ('s::zero) hit \<Rightarrow> 's chunk_info" where
  "processed_of rr chunk h =
     \<lparr>chunk_text = chunk,
      file_name = get_or (hit_file_name h) ''unknown'',
      file_path = get_or (hit_file_path h) ''unknown'',
      language = get_or (hit_language h) ''unknown'',
      score = get_or (hit_score h) 0,
      reranked = rr\<rparr>"

text \<open>
  The \<open>for hit in hits\<close> loop with its \<open>break\<close>: the state is \<open>processed_results\<close> and
  \<open>total_tokens\<close>. \<open>max_tokens\<close> is \<open>Optional[int]\<close> in the request, and comparing an
  integer with \<open>None\<close> raises \<open>TypeError\<close>.
\<close>

fun process_hits ::
  "int option \<Rightarrow> bool \<Rightarrow> ('s::zero) hit list \<Rightarrow> 's chunk_info list \<Rightarrow> int
     \<Rightarrow> py_error + ('s chunk_info list \<times> int)" where
  "process_hits max_tokens rr [] processed_results total_tokens =
     Inr (processed_results, total_tokens)"
| "process_hits max_tokens rr (h # hs) processed_results total_tokens =
     (case hit_chunk_text h of
        None \<Rightarrow> Inl KeyError
      | Some chunk \<Rightarrow>
          (case max_tokens of
             None \<Rightarrow> Inl TypeError
           | Some limit \<Rightarrow>
               if total_tokens + estimate_tokens chunk > limit
               then Inr (processed_results, total_tokens)
               else process_hits max_tokens rr hs
                      (processed_results @ [processed_of rr chunk h])
                      (total_tokens + estimate_tokens chunk)))"

definition search_params_of :: "string \<Rightarrow> string \<Rightarrow> analysis \<Rightarrow> search_params" where
  "search_params_of query namespace a =
     \<lparr>sp_namespace = namespace, sp_query_inputs = query, sp_top_k = base_k a,
      sp_fields = [''chunk_text'', ''file_name'', ''file_path'', ''language''],
      sp_rerank =
        (if should_rerank a
         then Some \<lparr>model = ''bge-reranker-v2-m3'', top_n = rerank_top_n a,
                     rank_fields = [''chunk_text'']\<rparr>
         else None)\<rparr>"

text \<open>Every exception inside \<open>smart_retrieve\<close> is caught and turned into \<open>[]\<close>.\<close>

definition smart_retrieve ::
  "(search_params \<Rightarrow> py_error + ('s::zero) hit list) \<Rightarrow> string \<Rightarrow> string \<Rightarrow> int option
     \<Rightarrow> 's chunk_info list" where
  "smart_retrieve index_search query namespace max_tokens =
     (case analyze_query query of
        Inl e \<Rightarrow> []
      | Inr a \<Rightarrow>
          (case index_search (search_params_of query namespace a) of
             Inl e \<Rightarrow> []
           | Inr hits \<Rightarrow>
               if hits = [] then []
               else (case process_hits max_tokens (should_rerank a) hits [] 0 of
                       Inl e \<Rightarrow> []
                     | Inr (processed_results, total_tokens) \<Rightarrow> processed_results)))"

section \<open>Session and the chat endpoint\<close>

record session =
  namespace :: string
  path :: "string option"
  files_processed :: int

record query_request =
  message :: string
  max_tokens :: "int option"

record metadata =
  chunks_found :: nat
  files_involved :: "nat option"
  file_summary :: "(string \<times> nat \<times> string) list option"
  retrieval_reranked :: "bool option"

record chat_body =
  success :: bool
  response :: string
  metadata :: metadata

datatype http_result = JSONResponse chat_body | HTTPException nat py_error

text \<open>The calls a request makes to its collaborators, in order.\<close>

datatype call = Retrieve string string "int option" | AskLLM string

text \<open>\<open>has_data\<close> of \<open>get_session_info\<close>; \<open>os.path.exists\<close> is the parameter \<open>path_exists\<close>.\<close>

definition has_data :: "(string \<Rightarrow> bool) \<Rightarrow> session \<Rightarrow> bool" where
  "has_data path_exists current_session =
     (case path current_session of
        None \<Rightarrow> False
      | Some p \<Rightarrow> path_exists p \<and> files_processed current_session > 0)"

text \<open>\<open>not current_session.get("path")\<close>: \<open>None\<close> and the empty string are falsy.\<close>

definition not_path :: "string option \<Rightarrow> bool" where
  "not_path p = (case p of None \<Rightarrow> True | Some s \<Rightarrow> s = [])"

definition no_repository_message :: string where
  "no_repository_message =
     ''No code repository has been uploaded yet. Please upload files or connect a GitHub repository first.''"

definition nothing_found_message :: string where
  "nothing_found_message =
     ''I couldn't find relevant information in the uploaded code. Please try rephrasing your question or check if files were properly uploaded.''"

text \<open>The per-file statistics: a dictionary in insertion order, keyed by file name.\<close>

fun bump_file :: "(string \<times> nat \<times> string) list \<Rightarrow> string \<Rightarrow> (string \<times> nat \<times> string) list" where
  "bump_file [] name = []"
| "bump_file ((n, cnt, lang) # rest) name =
     (if n = name then (n, cnt + 1, lang) # rest else (n, cnt, lang) # bump_file rest name)"

definition track_file ::
  "(string \<times> nat \<times> string) list \<Rightarrow> 's chunk_info \<Rightarrow> (string \<times> nat \<times> string) list" where
  "track_file summary c =
     (let summary' = (if file_name c \<notin> set (map fst summary)
                      then summary @ [(file_name c, 0, language c)] else summary)
      in bump_file summary' (file_name c))"

text \<open>
  \<open>chat\<close>: the retrieval, the language model and the prompt template (an f-string that
  formats the scores as floats) are parameters. The result is the HTTP outcome together
  with the collaborator calls made. An exception of \<open>ask_llm\<close> becomes a 500.
\<close>

definition chat ::
  "(string \<Rightarrow> string \<Rightarrow> int option \<Rightarrow> 's chunk_info list) \<Rightarrow> (string \<Rightarrow> py_error + string)
     \<Rightarrow> ('s chunk_info list \<Rightarrow> (string \<times> nat \<times> string) list \<Rightarrow> string \<Rightarrow> string)
     \<Rightarrow> session \<Rightarrow> query_request \<Rightarrow> http_result \<times> call list" where
  "chat retrieve ask_llm enhanced_query current_session request =
     (if not_path (path current_session) \<or> files_processed current_session = 0
      then (JSONResponse
              \<lparr>success = False, response = no_repository_message,
               metadata = \<lparr>chunks_found = 0, files_involved = None, file_summary = None,
                           retrieval_reranked = None\<rparr>\<rparr>, [])
      else
        (let retrieved_chunks =
               retrieve (message request) (namespace current_session) (max_tokens request);
             calls = [Retrieve (message request) (namespace current_session)
                        (max_tokens request)]
         in if retrieved_chunks = []
            then (JSONResponse
                    \<lparr>success = True, response = nothing_found_message,
                     metadata = \<lparr>chunks_found = 0, files_involved = None,
                                 file_summary = None, retrieval_reranked = None\<rparr>\<rparr>, calls)
            else
              (let summary = foldl track_file [] retrieved_chunks;
                   prompt = enhanced_query retrieved_chunks summary (message request)
               in case ask_llm prompt of
                    Inl e \<Rightarrow> (HTTPException 500 e, calls @ [AskLLM prompt])
                  | Inr answer \<Rightarrow>
                      (JSONResponse
                         \<lparr>success = True, response = answer,
                          metadata =
                            \<lparr>chunks_found = length retrieved_chunks,
                             files_involved = Some (length summary),
                             file_summary = Some summary,
                             retrieval_reranked =
                               Some (case retrieved_chunks of
                                       [] \<Rightarrow> False | c # _ \<Rightarrow> reranked c)\<rparr>\<rparr>,
                       calls @ [AskLLM prompt]))))"

section \<open>Notions used to state the properties\<close>

text \<open>
  The classifier as the specification words it: an ordered table of categories with
  their keyword lists, the first row with a keyword occurring in the text wins, and
  \<open>general\<close> is the answer when no row matches. Occurrence is the existence of a text
  before and a text after the keyword.
\<close>

definition occurs_in :: "string \<Rightarrow> string \<Rightarrow> bool" where
  "occurs_in keyword s = (\<exists>pre suf. s = pre @ keyword @ suf)"

definition intent_table :: "(string \<times> string list) list" where
  "intent_table =
     [(''summary'', summary_keywords), (''analysis'', analysis_keywords),
      (''bug_check'', bug_keywords), (''specific'', specific_keywords)]"

definition first_matching_intent :: "string \<Rightarrow> string" where
  "first_matching_intent s =
     (case find (\<lambda>row. \<exists>keyword \<in> set (snd row). occurs_in keyword s) intent_table of
        None \<Rightarrow> ''general''
      | Some row \<Rightarrow> fst row)"

text \<open>The two counts of \<open>_assess_complexity\<close>.\<close>

definition word_count :: "string \<Rightarrow> nat" where
  "word_count q = length (py_split q)"

definition interrogative_count :: "string \<Rightarrow> nat" where
  "interrogative_count q =
     length (filter (\<lambda>w. w \<in> set question_word_list) (py_split q))"

text \<open>Two queries used as examples.\<close>

definition explain_query :: string where
  "explain_query = ''explain the architecture of this project''"

definition long_question :: string where
  "long_question =
     ''what does this module do and how does it load the files and why is the upload so slow today''"

text \<open>A query with three CamelCase identifiers.\<close>

definition three_classes :: string where
  "three_classes = ''MyClass MyClass MyClass''"

text \<open>
  For the context assembly: a hit that carries its chunk text, the estimated cost of a hit,
  the entry the loop appends for an accepted hit, and the estimated cost of a bundle.
\<close>

definition has_chunk_text :: "'s hit \<Rightarrow> bool" where
  "has_chunk_text h = (hit_chunk_text h \<noteq> None)"

definition hit_cost :: "'s hit \<Rightarrow> int" where
  "hit_cost h = estimate_tokens (get_or (hit_chunk_text h) [])"

definition accepted_of :: "bool \<Rightarrow> ('s::zero) hit \<Rightarrow> 's chunk_info" where
  "accepted_of rr h = processed_of rr (get_or (hit_chunk_text h) []) h"

definition bundle_cost :: "'s chunk_info list \<Rightarrow> int" where
  "bundle_cost cs = sum_list (map (\<lambda>c. estimate_tokens (chunk_text c)) cs)"

text \<open>Example hits, sessions and a request.\<close>

definition plain_hit :: "string \<Rightarrow> int hit" where
  "plain_hit t =
     \<lparr>hit_chunk_text = Some t, hit_file_name = Some ''main.py'', hit_file_path = None,
      hit_language = Some ''python'', hit_score = None\<rparr>"

definition lost_session :: session where
  "lost_session = \<lparr>namespace = ''ns'', path = Some ''/tmp/rag-data/gone'', files_processed = 3\<rparr>"

definition fresh_session :: session where
  "fresh_session = \<lparr>namespace = ''ns'', path = None, files_processed = 0\<rparr>"

definition ready_session :: session where
  "ready_session = \<lparr>namespace = ''ns'', path = Some ''/tmp/rag-data/repo'', files_processed = 3\<rparr>"

definition hello_request :: query_request where
  "hello_request = \<lparr>message = ''summarize the code'', max_tokens = Some 8000\<rparr>"

text \<open>
  The guard at the head of \<open>chat\<close> and the response it returns when the guard fails.
\<close>

definition not_ready_response :: chat_body where
  "not_ready_response =
     \<lparr>success = False, response = no_repository_message,
      metadata = \<lparr>chunks_found = 0, files_involved = None, file_summary = None,
                  retrieval_reranked = None\<rparr>\<rparr>"

definition chat_guard_fails :: "session \<Rightarrow> bool" where
  "chat_guard_fails s = (not_path (path s) \<or> files_processed s = 0)"

section \<open>The analysis always succeeds\<close>

lemma classify_intent_cases:
  "classify_intent s \<in> set [''summary'', ''analysis'', ''bug_check'', ''specific'', ''general'']"
  by (simp add: classify_intent_def)

lemma assess_complexity_cases:
  "assess_complexity s \<in> set [''low'', ''medium'', ''high'']"
  by (simp add: assess_complexity_def Let_def)

lemma calculate_base_k_low: "calculate_base_k i ''low'' =
   Inr (if i = ''specific'' then 3 else if i = ''general'' then 5 else if i = ''summary'' then 8
        else if i = ''analysis'' then 10 else if i = ''bug_check'' then 12 else 5)"
  by (simp add: calculate_base_k_def base_values_def default_row_def)

lemma calculate_base_k_medium: "calculate_base_k i ''medium'' =
   Inr (if i = ''specific'' then 5 else if i = ''general'' then 8 else if i = ''summary'' then 15
        else if i = ''analysis'' then 18 else if i = ''bug_check'' then 20 else 8)"
  by (simp add: calculate_base_k_def base_values_def default_row_def)

lemma calculate_base_k_high: "calculate_base_k i ''high'' =
   Inr (if i = ''specific'' then 8 else if i = ''general'' then 12 else if i = ''summary'' then 25
        else if i = ''analysis'' then 30 else if i = ''bug_check'' then 35 else 12)"
  by (simp add: calculate_base_k_def base_values_def default_row_def)

lemmas calculate_base_k_rows = calculate_base_k_low calculate_base_k_medium calculate_base_k_high

lemma calculate_base_k_total:
  assumes "c \<in> set [''low'', ''medium'', ''high'']"
  shows "\<exists>k. calculate_base_k i c = Inr k"
  using assms by (auto simp: calculate_base_k_rows)

lemma analyze_query_total: "\<exists>a. analyze_query q = Inr a"
proof -
  obtain k where "calculate_base_k (classify_intent (lower q)) (assess_complexity (lower q)) = Inr k"
    using calculate_base_k_total [OF assess_complexity_cases] by blast
  then show ?thesis by (simp add: analyze_query_def Let_def)
qed

lemma analyze_query_fields:
  assumes "analyze_query q = Inr a"
  shows "intent a = classify_intent (lower q)"
    and "complexity a = assess_complexity (lower q)"
    and "specificity a = assess_specificity (lower q)"
    and "calculate_base_k (intent a) (complexity a) = Inr (base_k a)"
    and "should_rerank a = (intent a \<in> set rerank_intents)"
    and "rerank_top_n a = (if should_rerank a then max 3 (base_k a div 2) else base_k a)"
  using assms by (auto simp: analyze_query_def Let_def split: sum.splits)

section \<open>The retrieval size table\<close>

text \<open>
  Claim C9. The table of \<open>_calculate_base_k\<close> is strictly monotone in both dimensions:
  for every intent (the default row of an unknown intent included) the values grow
  strictly from low to medium to high, and for every complexity level they grow strictly
  along specific, general, summary, analysis, bug_check.
\<close>

theorem base_k_strictly_monotone:
  "(\<exists>l m h. calculate_base_k i ''low'' = Inr l \<and> calculate_base_k i ''medium'' = Inr m
      \<and> calculate_base_k i ''high'' = Inr h \<and> l < m \<and> m < h)
   \<and> (c \<in> set [''low'', ''medium'', ''high''] \<longrightarrow>
        (\<exists>k1 k2 k3 k4 k5.
           calculate_base_k ''specific'' c = Inr k1 \<and> calculate_base_k ''general'' c = Inr k2
         \<and> calculate_base_k ''summary'' c = Inr k3 \<and> calculate_base_k ''analysis'' c = Inr k4
         \<and> calculate_base_k ''bug_check'' c = Inr k5
         \<and> k1 < k2 \<and> k2 < k3 \<and> k3 < k4 \<and> k4 < k5))"
  by (auto simp: calculate_base_k_rows)

theorem base_k_strictly_monotone_witness:
  "(\<exists>l m h. calculate_base_k ''summary'' ''low'' = Inr l \<and> calculate_base_k ''summary'' ''medium'' = Inr m
      \<and> calculate_base_k ''summary'' ''high'' = Inr h \<and> l < m \<and> m < h)
   \<and> (\<exists>k1 k2 k3 k4 k5.
           calculate_base_k ''specific'' ''medium'' = Inr k1 \<and> calculate_base_k ''general'' ''medium'' = Inr k2
         \<and> calculate_base_k ''summary'' ''medium'' = Inr k3 \<and> calculate_base_k ''analysis'' ''medium'' = Inr k4
         \<and> calculate_base_k ''bug_check'' ''medium'' = Inr k5
         \<and> k1 < k2 \<and> k2 < k3 \<and> k3 < k4 \<and> k4 < k5)"
  using base_k_strictly_monotone [of "''summary''" "''medium''"] by simp


section \<open>The rerank decision\<close>

text \<open>
  Claim C6. For every query the analysis succeeds, \<open>should_rerank\<close> holds exactly when the
  intent is summary, analysis or bug_check, and \<open>rerank_top_n\<close> is \<open>max(3, base_k // 2)\<close>
  when reranking and \<open>base_k\<close> otherwise; when reranking, \<open>3 \<le> rerank_top_n \<le> base_k\<close>.
  The same bounds hold for every cell of the table in the three reranked rows.
\<close>

theorem rerank_plan:
  "(\<exists>a. analyze_query q = Inr a
      \<and> should_rerank a = (intent a \<in> {''summary'', ''analysis'', ''bug_check''})
      \<and> rerank_top_n a = (if should_rerank a then max 3 (base_k a div 2) else base_k a)
      \<and> (should_rerank a \<longrightarrow> 3 \<le> rerank_top_n a \<and> rerank_top_n a \<le> base_k a))
   \<and> (i \<in> {''summary'', ''analysis'', ''bug_check''} \<and> c \<in> {''low'', ''medium'', ''high''} \<longrightarrow>
        (\<exists>k. calculate_base_k i c = Inr k \<and> 3 \<le> max 3 (k div 2) \<and> max 3 (k div 2) \<le> k))"
proof (intro conjI impI)
  obtain a where a: "analyze_query q = Inr a" using analyze_query_total by blast
  note f = analyze_query_fields [OF a]
  have rr: "should_rerank a = (intent a \<in> {''summary'', ''analysis'', ''bug_check''})"
    using f(5) by (simp add: rerank_intents_def)
  have cx: "complexity a \<in> set [''low'', ''medium'', ''high'']"
    using f(2) assess_complexity_cases by simp
  have bound: "8 \<le> base_k a" if "should_rerank a"
    using that rr cx f(4) by (auto simp: calculate_base_k_rows)
  have "should_rerank a \<longrightarrow> 3 \<le> rerank_top_n a \<and> rerank_top_n a \<le> base_k a"
    using bound f(6) by auto
  with a rr f(6) show "\<exists>a. analyze_query q = Inr a
      \<and> should_rerank a = (intent a \<in> {''summary'', ''analysis'', ''bug_check''})
      \<and> rerank_top_n a = (if should_rerank a then max 3 (base_k a div 2) else base_k a)
      \<and> (should_rerank a \<longrightarrow> 3 \<le> rerank_top_n a \<and> rerank_top_n a \<le> base_k a)"
    by blast
next
  assume "i \<in> {''summary'', ''analysis'', ''bug_check''} \<and> c \<in> {''low'', ''medium'', ''high''}"
  then show "\<exists>k. calculate_base_k i c = Inr k \<and> 3 \<le> max 3 (k div 2) \<and> max 3 (k div 2) \<le> k"
    by (auto simp: calculate_base_k_rows)
qed

lemma classify_find_bug: "classify_intent (lower ''find the bug in login'') = ''bug_check''"
  by code_simp

theorem rerank_plan_witness:
  "(\<exists>a. analyze_query ''find the bug in login'' = Inr a
      \<and> should_rerank a \<and> intent a = ''bug_check''
      \<and> rerank_top_n a = max 3 (base_k a div 2)
      \<and> 3 \<le> rerank_top_n a \<and> rerank_top_n a \<le> base_k a)
   \<and> (\<exists>k. calculate_base_k ''summary'' ''low'' = Inr k \<and> 3 \<le> max 3 (k div 2) \<and> max 3 (k div 2) \<le> k)"
  using rerank_plan [of "''find the bug in login''" "''summary''" "''low''"] classify_find_bug
  by (auto dest: analyze_query_fields(1))

section \<open>The end-to-end example\<close>

lemma explain_analysis:
  "analyze_query explain_query =
     Inr \<lparr>intent = ''summary'', complexity = ''low'', specificity = ''low'', base_k = 8,
          should_rerank = True, rerank_top_n = 4\<rparr>"
  unfolding explain_query_def by code_simp

lemma explain_counts:
  "word_count (lower explain_query) = 6 \<and> interrogative_count (lower explain_query) = 0"
  unfolding explain_query_def word_count_def interrogative_count_def by code_simp

lemma explain_keywords:
  "sublist ''explain'' (lower explain_query) \<and> sublist ''architecture'' (lower explain_query)"
  unfolding explain_query_def by code_simp

text \<open>
  Claim C1, as the code has it. The query "explain the architecture of this project"
  contains the summary keyword \<open>explain\<close> as well as the analysis keyword
  \<open>architecture\<close>, and summary is tested first: the intent is summary, the complexity is
  low (6 words, no interrogative), \<open>base_k\<close> is 8, reranking is on and \<open>rerank_top_n\<close> is
  \<open>max(3, 8 // 2) = 4\<close>.
\<close>

theorem explain_architecture_is_summary:
  "analyze_query explain_query =
     Inr \<lparr>intent = ''summary'', complexity = ''low'', specificity = ''low'', base_k = 8,
          should_rerank = True, rerank_top_n = max 3 (8 div 2)\<rparr>
   \<and> word_count (lower explain_query) = 6
   \<and> interrogative_count (lower explain_query) = 0
   \<and> sublist ''explain'' (lower explain_query)
   \<and> sublist ''architecture'' (lower explain_query)
   \<and> ''explain'' \<in> set summary_keywords
   \<and> ''architecture'' \<in> set analysis_keywords"
  using explain_analysis explain_counts explain_keywords
  by (simp add: summary_keywords_def analysis_keywords_def)

text \<open>
  The claim as stated (intent analysis, \<open>base_k\<close> 10, \<open>rerank_top_n\<close> 5) does not hold of
  the code.
\<close>

theorem explain_architecture_not_analysis:
  "\<exists>a. analyze_query ''explain the architecture of this project'' = Inr a
     \<and> intent a \<noteq> ''analysis'' \<and> base_k a \<noteq> 10 \<and> rerank_top_n a \<noteq> 5"
  using explain_analysis by (simp add: explain_query_def)

section \<open>Intent classification\<close>

lemma any_keyword_in_iff:
  "any_keyword_in keywords s = (\<exists>keyword \<in> set keywords. occurs_in keyword s)"
  by (simp add: any_keyword_in_def list_ex_iff occurs_in_def sublist_def)

lemma classify_intent_first_match: "classify_intent s = first_matching_intent s"
  by (simp add: classify_intent_def first_matching_intent_def intent_table_def
      any_keyword_in_iff)

lemma classify_intent_general_iff:
  "(classify_intent s = ''general'') =
     (\<forall>keyword \<in> set (summary_keywords @ analysis_keywords @ bug_keywords @ specific_keywords).
        \<not> occurs_in keyword s)"
  by (auto simp: classify_intent_def any_keyword_in_iff)

lemma classify_xyz123: "classify_intent (lower ''xyz123'') = ''general''"
  by code_simp

text \<open>
  Claim C5. For every query the intent is the first category, in the order summary,
  analysis, bug_check, specific, one of whose keywords occurs in the lower-cased query,
  and it is general exactly when no keyword of any list occurs; the query \<open>xyz123\<close> is
  general.
\<close>

theorem intent_priority:
  "(\<exists>a. analyze_query q = Inr a \<and> intent a = first_matching_intent (lower q))
   \<and> classify_intent s = first_matching_intent s
   \<and> classify_intent s =
       (if \<exists>keyword \<in> set summary_keywords. occurs_in keyword s then ''summary''
        else if \<exists>keyword \<in> set analysis_keywords. occurs_in keyword s then ''analysis''
        else if \<exists>keyword \<in> set bug_keywords. occurs_in keyword s then ''bug_check''
        else if \<exists>keyword \<in> set specific_keywords. occurs_in keyword s then ''specific''
        else ''general'')
   \<and> (classify_intent s = ''general'') =
       (\<forall>keyword \<in> set (summary_keywords @ analysis_keywords @ bug_keywords @ specific_keywords).
          \<not> occurs_in keyword s)
   \<and> (\<exists>a. analyze_query ''xyz123'' = Inr a \<and> intent a = ''general'')"
proof (intro conjI)
  obtain a where a: "analyze_query q = Inr a" using analyze_query_total by blast
  then show "\<exists>a. analyze_query q = Inr a \<and> intent a = first_matching_intent (lower q)"
    using analyze_query_fields(1) [OF a] classify_intent_first_match by auto
next
  show "classify_intent s = first_matching_intent s" by (rule classify_intent_first_match)
next
  show "classify_intent s =
       (if \<exists>keyword \<in> set summary_keywords. occurs_in keyword s then ''summary''
        else if \<exists>keyword \<in> set analysis_keywords. occurs_in keyword s then ''analysis''
        else if \<exists>keyword \<in> set bug_keywords. occurs_in keyword s then ''bug_check''
        else if \<exists>keyword \<in> set specific_keywords. occurs_in keyword s then ''specific''
        else ''general'')"
    by (simp only: classify_intent_def any_keyword_in_iff)
next
  show "(classify_intent s = ''general'') =
       (\<forall>keyword \<in> set (summary_keywords @ analysis_keywords @ bug_keywords @ specific_keywords).
          \<not> occurs_in keyword s)"
    by (rule classify_intent_general_iff)
next
  obtain a where a: "analyze_query ''xyz123'' = Inr a" using analyze_query_total by blast
  then show "\<exists>a. analyze_query ''xyz123'' = Inr a \<and> intent a = ''general''"
    using analyze_query_fields(1) [OF a] classify_xyz123 by auto
qed

lemma classify_fix_design: "classify_intent ''fix the design'' = ''analysis''"
  by code_simp

lemma classify_summarize: "classify_intent (lower ''Summarize the design flow'') = ''summary''"
  by code_simp

theorem intent_priority_witness:
  "(\<exists>a. analyze_query ''Summarize the design flow'' = Inr a \<and> intent a = ''summary'')
   \<and> first_matching_intent ''fix the design'' = ''analysis''
   \<and> (\<exists>keyword \<in> set (summary_keywords @ analysis_keywords @ bug_keywords @ specific_keywords).
          occurs_in keyword ''fix the design'')"
  using intent_priority [of "''Summarize the design flow''" "''fix the design''"]
    classify_fix_design classify_summarize classify_intent_first_match
  by auto

lemma split_acc_concat:
  "concat (split_acc w s) = w @ filter (\<lambda>c. \<not> is_space c) s"
  by (induction s arbitrary: w) simp_all

lemma split_acc_words:
  "(\<forall>c \<in> set w. \<not> is_space c) \<Longrightarrow> x \<in> set (split_acc w s) \<Longrightarrow>
     x \<noteq> [] \<and> (\<forall>c \<in> set x. \<not> is_space c)"
proof (induction s arbitrary: w)
  case Nil
  then show ?case by (simp split: if_splits)
next
  case (Cons c cs)
  show ?case
  proof (cases "is_space c")
    case True
    with Cons.prems have "x = w \<and> w \<noteq> [] \<or> x \<in> set (split_acc [] cs)"
      by (simp split: if_splits)
    then show ?thesis using Cons.IH [of "[]"] Cons.prems(1) by auto
  next
    case False
    with Cons.prems have "x \<in> set (split_acc (w @ [c]) cs)" by simp
    moreover have "\<forall>d \<in> set (w @ [c]). \<not> is_space d" using False Cons.prems(1) by simp
    ultimately show ?thesis using Cons.IH [of "w @ [c]"] by blast
  qed
qed

lemma py_split_words:
  "concat (py_split s) = filter (\<lambda>c. \<not> is_space c) s"
  "x \<in> set (py_split s) \<Longrightarrow> x \<noteq> [] \<and> (\<forall>c \<in> set x. \<not> is_space c)"
  using split_acc_concat [of "[]" s] split_acc_words [of "[]" x s]
  by (simp_all add: py_split_def)

lemma question_words_set:
  "set question_word_list = {''what'', ''how'', ''why'', ''when'', ''where'', ''which''}"
  by (simp add: question_word_list_def)

lemma assess_complexity_counts:
  "assess_complexity q =
     (if 15 < word_count q \<or> 2 < interrogative_count q then ''high''
      else if 8 < word_count q \<or> 1 < interrogative_count q then ''medium''
      else ''low'')"
  unfolding assess_complexity_def word_count_def interrogative_count_def Let_def
  by (rule refl)

lemma long_question_counts:
  "word_count (lower long_question) = 20 \<and> interrogative_count (lower long_question) = 3"
  unfolding long_question_def word_count_def interrogative_count_def by code_simp

lemma what_counts: "word_count ''what'' = 1 \<and> interrogative_count ''what'' = 1"
  unfolding word_count_def interrogative_count_def by code_simp

text \<open>
  Claim C7. With the word count and the count of words among what, how, why, when,
  where, which taken over the whitespace-split text: the complexity is high exactly when
  the word count exceeds 15 or the interrogative count exceeds 2, medium exactly when it
  is not high and the word count exceeds 8 or the interrogative count exceeds 1, and low
  otherwise. \<open>analyze_query\<close> applies this to the lower-cased query. The query \<open>what\<close>
  is low, and a query of 20 words with 3 interrogatives is high.
\<close>

theorem complexity_thresholds:
  "(assess_complexity q = ''high'') = (15 < word_count q \<or> 2 < interrogative_count q)
   \<and> (assess_complexity q = ''medium'') =
       (\<not> (15 < word_count q \<or> 2 < interrogative_count q)
        \<and> (8 < word_count q \<or> 1 < interrogative_count q))
   \<and> (assess_complexity q = ''low'') = (word_count q \<le> 8 \<and> interrogative_count q \<le> 1)
   \<and> (\<exists>a. analyze_query q = Inr a \<and> complexity a = assess_complexity (lower q))
   \<and> word_count ''what'' = 1 \<and> interrogative_count ''what'' = 1
   \<and> assess_complexity ''what'' = ''low''
   \<and> (word_count q = 20 \<and> interrogative_count q = 3 \<longrightarrow> assess_complexity q = ''high'')"
proof -
  obtain a where a: "analyze_query q = Inr a" using analyze_query_total by blast
  have A: "\<exists>a. analyze_query q = Inr a \<and> complexity a = assess_complexity (lower q)"
    using a analyze_query_fields(2) [OF a] by auto
  have W: "assess_complexity ''what'' = ''low''"
    using what_counts by (simp add: assess_complexity_counts)
  have H: "(assess_complexity q = ''high'') = (15 < word_count q \<or> 2 < interrogative_count q)"
    by (simp add: assess_complexity_counts)
  have M: "(assess_complexity q = ''medium'') =
       (\<not> (15 < word_count q \<or> 2 < interrogative_count q)
        \<and> (8 < word_count q \<or> 1 < interrogative_count q))"
    by (simp add: assess_complexity_counts)
  have L: "(assess_complexity q = ''low'') = (word_count q \<le> 8 \<and> interrogative_count q \<le> 1)"
    by (simp add: assess_complexity_counts not_less)
  have T: "word_count q = 20 \<and> interrogative_count q = 3 \<longrightarrow> assess_complexity q = ''high''"
    by (simp add: assess_complexity_counts)
  from H M L A W T what_counts show ?thesis by blast
qed

theorem complexity_thresholds_witness:
  "word_count (lower long_question) = 20 \<and> interrogative_count (lower long_question) = 3
   \<and> assess_complexity (lower long_question) = ''high''
   \<and> (\<exists>a. analyze_query long_question = Inr a \<and> complexity a = ''high'')"
proof -
  note t1 = complexity_thresholds [of "lower long_question"]
  note t2 = complexity_thresholds [of long_question]
  from t1 long_question_counts have h: "assess_complexity (lower long_question) = ''high''"
    by blast
  from t2 obtain a where "analyze_query long_question = Inr a"
    and "complexity a = assess_complexity (lower long_question)" by blast
  with h long_question_counts show ?thesis by auto
qed

section \<open>Specificity\<close>


lemma lower_char_not_upper: "\<not> is_upper (lower_char c)"
  by (auto simp: lower_char_def is_upper_def)

lemma lower_no_upper: "\<forall>c \<in> set (lower s). \<not> is_upper c"
  by (simp add: lower_def lower_char_not_upper)

lemma m_ends_camel_none:
  assumes "\<forall>c \<in> set rest. \<not> is_upper c"
  shows "m_ends camel_case_re (prev, rest) = []"
  using assms by (cases rest) (simp_all add: camel_case_re_def)

lemma findall_from_camel_none:
  "(\<forall>c \<in> set rest. \<not> is_upper c) \<Longrightarrow> findall_from camel_case_re (prev, rest) = []"
proof (induction rest arbitrary: prev)
  case Nil
  have "m_ends camel_case_re (prev, []) = []" by (rule m_ends_camel_none) simp
  then show ?case by (subst findall_from.simps) simp
next
  case (Cons c cs)
  have "m_ends camel_case_re (prev, c # cs) = []" using Cons.prems by (rule m_ends_camel_none)
  moreover have "findall_from camel_case_re (Some c, cs) = []"
    using Cons.prems by (intro Cons.IH) simp
  ultimately show ?case by (subst findall_from.simps) simp
qed

lemma camel_count_lower: "findall camel_case_re (lower q) = []"
  unfolding findall_def by (rule findall_from_camel_none) (rule lower_no_upper)

lemma specificity_lowered:
  "assess_specificity (lower q) =
     (if 1 < length (findall code_pattern_re (lower q)) then ''high''
      else if 0 < length (findall code_pattern_re (lower q)) then ''medium''
      else ''low'')"
  by (simp add: assess_specificity_def camel_count_lower Let_def)

lemma three_classes_raw:
  "findall camel_case_re three_classes = [''MyClass'', ''MyClass'', ''MyClass'']"
  unfolding three_classes_def by code_simp

lemma three_classes_raw_specificity: "assess_specificity three_classes = ''high''"
  unfolding three_classes_def by code_simp

lemma three_classes_lowered: "assess_specificity (lower three_classes) = ''low''"
  unfolding three_classes_def by code_simp

text \<open>
  Claim C2. The claim is that specificity is computed over the query as typed, so that
  three CamelCase identifiers give high. \<open>analyze_query\<close> passes the lower-cased query to
  \<open>_assess_specificity\<close>: on a lower-cased text the CamelCase pattern never matches, so
  the specificity of every query is decided by the code-shape patterns alone. On
  \<open>MyClass MyClass MyClass\<close> the pattern finds three identifiers in the raw text and
  \<open>_assess_specificity\<close> of the raw text is high, but \<open>analyze_query\<close> returns low.
\<close>

theorem specificity_ignores_camel_case:
  "findall camel_case_re (lower q) = []
   \<and> (\<exists>a. analyze_query q = Inr a
        \<and> specificity a =
            (if 1 < length (findall code_pattern_re (lower q)) then ''high''
             else if 0 < length (findall code_pattern_re (lower q)) then ''medium''
             else ''low''))
   \<and> length (findall camel_case_re three_classes) = 3
   \<and> assess_specificity three_classes = ''high''
   \<and> (\<exists>a. analyze_query three_classes = Inr a \<and> specificity a = ''low'')"
proof -
  obtain a where a: "analyze_query q = Inr a" using analyze_query_total by blast
  obtain b where b: "analyze_query three_classes = Inr b" using analyze_query_total by blast
  have "specificity a = assess_specificity (lower q)" by (rule analyze_query_fields(3) [OF a])
  moreover have "specificity b = ''low''"
    using analyze_query_fields(3) [OF b] three_classes_lowered by simp
  ultimately show ?thesis
    using a b camel_count_lower [of q] specificity_lowered [of q] three_classes_raw
      three_classes_raw_specificity
    by auto
qed

section \<open>Context assembly under the token budget\<close>


lemma hit_cost_nonneg: "0 \<le> hit_cost h"
  by (simp add: hit_cost_def estimate_tokens_def)

lemma prefix_cost_nonneg: "0 \<le> sum_list (map hit_cost hs)"
  by (rule sum_list_nonneg) (auto simp: hit_cost_nonneg)

lemma bundle_cost_accepted:
  "bundle_cost (map (accepted_of rr) hs) = sum_list (map hit_cost hs)"
  by (induction hs) (simp_all add: bundle_cost_def accepted_of_def processed_of_def hit_cost_def)

lemma process_hits_prefix:
  "list_all has_chunk_text hits \<Longrightarrow>
   \<exists>n \<le> length hits.
     process_hits (Some b) rr hits acc tot =
       Inr (acc @ map (accepted_of rr) (take n hits), tot + sum_list (map hit_cost (take n hits)))
     \<and> (\<forall>k < length hits. (k < n) = (tot + sum_list (map hit_cost (take (Suc k) hits)) \<le> b))"
proof (induction hits arbitrary: acc tot)
  case Nil
  then show ?case by simp
next
  case (Cons h hs)
  from Cons.prems obtain t where t: "hit_chunk_text h = Some t"
    by (auto simp: has_chunk_text_def)
  have c: "hit_cost h = estimate_tokens t" by (simp add: hit_cost_def t get_or_def)
  have acc_h: "accepted_of rr h = processed_of rr t h"
    by (simp add: accepted_of_def t get_or_def)
  show ?case
  proof (cases "tot + estimate_tokens t > b")
    case True
    have run: "process_hits (Some b) rr (h # hs) acc tot = Inr (acc, tot)"
      using True t by simp
    have "\<not> tot + sum_list (map hit_cost (take (Suc k) (h # hs))) \<le> b" for k
      using True c prefix_cost_nonneg [of "take k hs"] by simp
    with run show ?thesis by (intro exI [of _ 0]) simp
  next
    case False
    from Cons.prems have "list_all has_chunk_text hs" by simp
    from Cons.IH [OF this, of "acc @ [processed_of rr t h]" "tot + estimate_tokens t"]
    obtain n where n: "n \<le> length hs"
      and run': "process_hits (Some b) rr hs (acc @ [processed_of rr t h]) (tot + estimate_tokens t) =
         Inr ((acc @ [processed_of rr t h]) @ map (accepted_of rr) (take n hs),
              (tot + estimate_tokens t) + sum_list (map hit_cost (take n hs)))"
      and iff': "\<forall>k < length hs. (k < n) =
         ((tot + estimate_tokens t) + sum_list (map hit_cost (take (Suc k) hs)) \<le> b)"
      by blast
    have run: "process_hits (Some b) rr (h # hs) acc tot =
        Inr (acc @ map (accepted_of rr) (take (Suc n) (h # hs)),
             tot + sum_list (map hit_cost (take (Suc n) (h # hs))))"
      using False t run' by (simp add: acc_h c)
    have iff: "(k < Suc n) = (tot + sum_list (map hit_cost (take (Suc k) (h # hs))) \<le> b)"
      if "k < length (h # hs)" for k
    proof (cases k)
      case 0
      then show ?thesis using False c by simp
    next
      case (Suc k')
      with that have "k' < length hs" by simp
      with iff' have "(k' < n) =
         ((tot + estimate_tokens t) + sum_list (map hit_cost (take (Suc k') hs)) \<le> b)" by blast
      then show ?thesis using Suc c by (simp add: add.assoc)
    qed
    from n run iff show ?thesis by (intro exI [of _ "Suc n"]) simp
  qed
qed

lemma smart_retrieve_prefix:
  assumes a: "analyze_query q = Inr a"
    and s: "index_search (search_params_of q ns a) = Inr hits"
    and w: "list_all has_chunk_text hits"
  shows "\<exists>n \<le> length hits.
     smart_retrieve index_search q ns (Some b) = map (accepted_of (should_rerank a)) (take n hits)
     \<and> (\<forall>k < length hits. (k < n) = (sum_list (map hit_cost (take (Suc k) hits)) \<le> b))"
proof (cases "hits = []")
  case True
  then show ?thesis using a s by (simp add: smart_retrieve_def)
next
  case False
  from process_hits_prefix [OF w, of b "should_rerank a" "[]" 0]
  obtain n where "n \<le> length hits"
    and "process_hits (Some b) (should_rerank a) hits [] 0 =
       Inr (map (accepted_of (should_rerank a)) (take n hits), sum_list (map hit_cost (take n hits)))"
    and "\<forall>k < length hits. (k < n) = (sum_list (map hit_cost (take (Suc k) hits)) \<le> b)"
    by auto
  then show ?thesis using a s False by (intro exI [of _ n]) (simp add: smart_retrieve_def)
qed

lemma process_hits_reranked:
  "list_all (\<lambda>c. reranked c = rr) acc \<Longrightarrow> process_hits mt rr hits acc tot = Inr (res, t) \<Longrightarrow>
     list_all (\<lambda>c. reranked c = rr) res"
proof (induction hits arbitrary: acc tot)
  case Nil
  then show ?case by simp
next
  case (Cons h hs)
  from Cons.prems(2) obtain chunk limit where ch: "hit_chunk_text h = Some chunk"
    and mt: "mt = Some limit"
    by (auto split: option.splits)
  show ?case
  proof (cases "tot + estimate_tokens chunk > limit")
    case True
    with Cons.prems ch mt show ?thesis by simp
  next
    case False
    with Cons.prems(2) ch mt
    have "process_hits mt rr hs (acc @ [processed_of rr chunk h]) (tot + estimate_tokens chunk)
            = Inr (res, t)" by simp
    moreover have "list_all (\<lambda>c. reranked c = rr) (acc @ [processed_of rr chunk h])"
      using Cons.prems(1) by (simp add: processed_of_def)
    ultimately show ?thesis by (rule Cons.IH [rotated])
  qed
qed

lemma smart_retrieve_reranked:
  assumes "analyze_query q = Inr a"
  shows "list_all (\<lambda>c. reranked c = should_rerank a) (smart_retrieve index_search q ns mt)"
  using assms process_hits_reranked [of "should_rerank a" "[]" mt _ 0]
  by (auto simp: smart_retrieve_def split: sum.splits)

text \<open>
  Claim C4, as the code has it. When every hit carries its chunk text, the bundle is the
  first \<open>n\<close> hits in rank order; the hit at position \<open>k\<close> is accepted exactly when the
  running total through it does not exceed the budget (the costs are non-negative, so
  this is the prefix before the first hit that would exceed it); the estimated cost of
  the bundle does not exceed the budget when the budget is non-negative or a hit was
  accepted; and costs 100, 100, 100 with budget 250 give exactly the first two hits.
\<close>

theorem budget_prefix:
  assumes "analyze_query q = Inr a"
    and "index_search (search_params_of q ns a) = Inr hits"
    and "list_all has_chunk_text hits"
  shows "\<exists>n \<le> length hits.
     smart_retrieve index_search q ns (Some b) = map (accepted_of (should_rerank a)) (take n hits)
     \<and> (\<forall>k < length hits. (k < n) = (sum_list (map hit_cost (take (Suc k) hits)) \<le> b))
     \<and> (0 \<le> b \<or> 0 < n \<longrightarrow> bundle_cost (smart_retrieve index_search q ns (Some b)) \<le> b)
     \<and> (map hit_cost hits = [100, 100, 100] \<and> b = 250 \<longrightarrow> n = 2)"
proof -
  have "\<exists>n \<le> length hits.
     smart_retrieve index_search q ns (Some b) = map (accepted_of (should_rerank a)) (take n hits)
     \<and> (\<forall>k < length hits. (k < n) = (sum_list (map hit_cost (take (Suc k) hits)) \<le> b))"
    using assms by (rule smart_retrieve_prefix)
  then obtain n where n: "n \<le> length hits"
    and r: "smart_retrieve index_search q ns (Some b) = map (accepted_of (should_rerank a)) (take n hits)"
    and iff: "\<forall>k < length hits. (k < n) = (sum_list (map hit_cost (take (Suc k) hits)) \<le> b)"
    by blast
  have cost: "bundle_cost (smart_retrieve index_search q ns (Some b)) = sum_list (map hit_cost (take n hits))"
    by (simp add: r bundle_cost_accepted)
  have bound: "bundle_cost (smart_retrieve index_search q ns (Some b)) \<le> b" if "0 \<le> b \<or> 0 < n"
  proof (cases n)
    case 0
    with that cost show ?thesis by simp
  next
    case (Suc m)
    with n have "m < length hits" by simp
    with iff Suc have "sum_list (map hit_cost (take (Suc m) hits)) \<le> b" by auto
    with cost Suc show ?thesis by simp
  qed
  have ex: "n = 2" if h: "map hit_cost hits = [100, 100, 100]" and b: "b = 250"
  proof -
    from h have len: "length hits = 3" by (metis length_map length_Cons list.size(3) numeral_3_eq_3)
    have t: "map hit_cost (take k hits) = take k [100, 100, 100]" for k
      using h by (simp add: take_map [symmetric])
    have "(0 < n) = (sum_list (map hit_cost (take (Suc 0) hits)) \<le> b)"
      "(1 < n) = (sum_list (map hit_cost (take (Suc 1) hits)) \<le> b)"
      "(2 < n) = (sum_list (map hit_cost (take (Suc 2) hits)) \<le> b)"
      using iff len by simp_all
    then have "0 < n" "1 < n" "\<not> 2 < n" unfolding t b by simp_all
    then show ?thesis by simp
  qed
  from n r iff bound ex show ?thesis by blast
qed

theorem budget_prefix_witness:
  "length (smart_retrieve
      (\<lambda>p. Inr [plain_hit (replicate 400 CHR ''a''), plain_hit (replicate 400 CHR ''b''),
                 plain_hit (replicate 400 CHR ''c'')])
      ''xyz123'' ''ns'' (Some 250)) = 2
   \<and> bundle_cost (smart_retrieve
      (\<lambda>p. Inr [plain_hit (replicate 400 CHR ''a''), plain_hit (replicate 400 CHR ''b''),
                 plain_hit (replicate 400 CHR ''c'')])
      ''xyz123'' ''ns'' (Some 250)) \<le> 250"
proof -
  let ?hs = "[plain_hit (replicate 400 CHR ''a''), plain_hit (replicate 400 CHR ''b''),
              plain_hit (replicate 400 CHR ''c'')]"
  obtain a where a: "analyze_query ''xyz123'' = Inr a" using analyze_query_total by blast
  have s: "(\<lambda>p. Inr ?hs) (search_params_of ''xyz123'' ''ns'' a) = Inr ?hs" by simp
  have w: "list_all has_chunk_text ?hs" by (simp add: has_chunk_text_def plain_hit_def)
  have c: "map hit_cost ?hs = [100, 100, 100]"
    by (simp add: hit_cost_def plain_hit_def get_or_def estimate_tokens_def)
  from budget_prefix [where q = "''xyz123''" and a = a and index_search = "\<lambda>p. Inr ?hs"
      and ns = "''ns''" and hits = ?hs and b = 250] a w c
  show ?thesis by auto
qed

text \<open>
  With a negative budget nothing is accepted, and the empty bundle's cost 0 exceeds the
  budget: the bound of the claim does not hold for every budget.
\<close>

theorem negative_budget_exceeded:
  "\<not> bundle_cost (smart_retrieve (\<lambda>p. Inr [plain_hit ''abcd'']) ''xyz123'' ''ns'' (Some (- 1)))
       \<le> - 1"
proof -
  obtain a where a: "analyze_query ''xyz123'' = Inr a" using analyze_query_total by blast
  have "smart_retrieve (\<lambda>p. Inr [plain_hit ''abcd'']) ''xyz123'' ''ns'' (Some (- 1)) = []"
    by (simp add: smart_retrieve_def a plain_hit_def estimate_tokens_def)
  then show ?thesis by (simp add: bundle_cost_def)
qed

text \<open>
  Claim C3, as the code has it. For a non-empty list of hits that carry their chunk text,
  the bundle is empty exactly when the budget is smaller than the first hit's estimated
  cost; otherwise the bundle starts with the first hit.
\<close>

theorem first_hit_needs_budget:
  assumes "analyze_query q = Inr a"
    and "index_search (search_params_of q ns a) = Inr (h # hs)"
    and "list_all has_chunk_text (h # hs)"
  shows "(smart_retrieve index_search q ns (Some b) = []) = (b < hit_cost h)
     \<and> (hit_cost h \<le> b \<longrightarrow>
          (\<exists>more. smart_retrieve index_search q ns (Some b) = accepted_of (should_rerank a) h # more))"
proof -
  have "\<exists>n \<le> length (h # hs).
     smart_retrieve index_search q ns (Some b) = map (accepted_of (should_rerank a)) (take n (h # hs))
     \<and> (\<forall>k < length (h # hs). (k < n) = (sum_list (map hit_cost (take (Suc k) (h # hs))) \<le> b))"
    using assms by (rule smart_retrieve_prefix)
  then obtain n where n: "n \<le> length (h # hs)"
    and r: "smart_retrieve index_search q ns (Some b) = map (accepted_of (should_rerank a)) (take n (h # hs))"
    and iff: "\<forall>k < length (h # hs). (k < n) = (sum_list (map hit_cost (take (Suc k) (h # hs))) \<le> b)"
    by blast
  from iff have z: "(0 < n) = (hit_cost h \<le> b)" by auto
  show ?thesis
  proof (cases n)
    case 0
    with z r show ?thesis by simp
  next
    case (Suc m)
    with z r show ?thesis by simp
  qed
qed

theorem first_hit_needs_budget_witness:
  "smart_retrieve (\<lambda>p. Inr [plain_hit ''abcdefgh'', plain_hit ''abcd'']) ''xyz123'' ''ns'' (Some 2) \<noteq> []
   \<and> hit_cost (plain_hit ''abcdefgh'') = 2"
proof -
  let ?hs = "[plain_hit ''abcdefgh'', plain_hit ''abcd'']"
  obtain a where a: "analyze_query ''xyz123'' = Inr a" using analyze_query_total by blast
  have s: "(\<lambda>p. Inr ?hs) (search_params_of ''xyz123'' ''ns'' a) = Inr ?hs" by simp
  have w: "list_all has_chunk_text ?hs" by (simp add: has_chunk_text_def plain_hit_def)
  have c: "hit_cost (plain_hit ''abcdefgh'') = 2"
    by (simp add: hit_cost_def plain_hit_def get_or_def estimate_tokens_def)
  from first_hit_needs_budget [where q = "''xyz123''" and a = a
      and index_search = "\<lambda>p. Inr ?hs" and ns = "''ns''" and h = "plain_hit ''abcdefgh''"
      and hs = "[plain_hit ''abcd'']" and b = 2] a w c
  show ?thesis by auto
qed

text \<open>
  One hit of 8 characters (cost 2) and a budget of 1: the loop breaks at the first hit
  and the bundle is empty.
\<close>

theorem first_hit_dropped:
  "smart_retrieve (\<lambda>p. Inr [plain_hit ''abcdefgh'']) ''xyz123'' ''ns'' (Some 1) = []"
proof -
  obtain a where a: "analyze_query ''xyz123'' = Inr a" using analyze_query_total by blast
  show ?thesis
    by (simp add: smart_retrieve_def a plain_hit_def estimate_tokens_def)
qed

section \<open>The chat endpoint\<close>


lemma chat_not_ready:
  "chat_guard_fails s \<Longrightarrow> chat R A E s req = (JSONResponse not_ready_response, [])"
  by (simp add: chat_def chat_guard_fails_def not_ready_response_def)

lemma chat_retrieves:
  "\<not> chat_guard_fails s \<Longrightarrow>
     \<exists>r more. chat R A E s req = (r, Retrieve (message req) (namespace s) (max_tokens req) # more)"
  by (simp add: chat_def chat_guard_fails_def Let_def split: sum.splits)

lemma has_data_passes_guard:
  "has_data path_exists s \<Longrightarrow> \<not> path_exists [] \<Longrightarrow> \<not> chat_guard_fails s"
  by (auto simp: has_data_def chat_guard_fails_def not_path_def split: option.splits)

text \<open>
  Claim C8, as the code has it. \<open>chat\<close> tests that the root path is set and non-empty
  and that the processed-file count is not 0; it does not test that the path exists on
  disk. When this guard fails, \<open>chat\<close> returns the structured not-ready response
  (success false, a message, zero chunks) and calls no collaborator; when it holds, the
  first call is the retrieval. Every session that \<open>has_data\<close> calls ready passes the
  guard (\<open>os.path.exists\<close> is false on the empty path).
\<close>

theorem chat_guard:
  "(chat_guard_fails s \<longrightarrow> chat R A E s req = (JSONResponse not_ready_response, []))
   \<and> (\<not> chat_guard_fails s \<longrightarrow>
        (\<exists>r more. chat R A E s req =
           (r, Retrieve (message req) (namespace s) (max_tokens req) # more)))
   \<and> (has_data path_exists s \<and> \<not> path_exists [] \<longrightarrow> \<not> chat_guard_fails s)
   \<and> chat_guard_fails s = (path s = None \<or> path s = Some [] \<or> files_processed s = 0)
   \<and> success not_ready_response = False
   \<and> chunks_found (metadata not_ready_response) = 0"
  using chat_not_ready [of s R A E req] chat_retrieves [of s R A E req]
    has_data_passes_guard [of path_exists s]
  by (auto simp: chat_guard_fails_def not_path_def not_ready_response_def split: option.splits)

theorem chat_guard_witness:
  "chat (\<lambda>q n m. ([] :: int chunk_info list)) (\<lambda>p. Inr p) (\<lambda>cs fs m. m) fresh_session hello_request
     = (JSONResponse not_ready_response, [])
   \<and> (\<exists>r more. chat (\<lambda>q n m. ([] :: int chunk_info list)) (\<lambda>p. Inr p) (\<lambda>cs fs m. m)
          ready_session hello_request
        = (r, Retrieve ''summarize the code'' ''ns'' (Some 8000) # more))
   \<and> has_data (\<lambda>p. p = ''/tmp/rag-data/repo'') ready_session
   \<and> \<not> chat_guard_fails ready_session"
proof -
  have f: "chat_guard_fails fresh_session"
    by (simp add: chat_guard_fails_def fresh_session_def not_path_def)
  have r: "has_data (\<lambda>p. p = ''/tmp/rag-data/repo'') ready_session"
    by (simp add: has_data_def ready_session_def)
  have e: "\<not> (\<lambda>p. p = ''/tmp/rag-data/repo'') []" by simp
  note t1 = chat_guard [where s = fresh_session and req = hello_request
      and R = "\<lambda>q n m. ([] :: int chunk_info list)" and A = "\<lambda>p. Inr p" and E = "\<lambda>cs fs m. m"]
  note t2 = chat_guard [where s = ready_session and req = hello_request
      and R = "\<lambda>q n m. ([] :: int chunk_info list)" and A = "\<lambda>p. Inr p" and E = "\<lambda>cs fs m. m"
      and path_exists = "\<lambda>p. p = ''/tmp/rag-data/repo''"]
  from t2 r e have g: "\<not> chat_guard_fails ready_session" by blast
  from t1 f have c1: "chat (\<lambda>q n m. ([] :: int chunk_info list)) (\<lambda>p. Inr p) (\<lambda>cs fs m. m)
      fresh_session hello_request = (JSONResponse not_ready_response, [])" by blast
  from t2 g have "\<exists>r more. chat (\<lambda>q n m. ([] :: int chunk_info list)) (\<lambda>p. Inr p) (\<lambda>cs fs m. m)
          ready_session hello_request
        = (r, Retrieve (message hello_request) (namespace ready_session)
                (max_tokens hello_request) # more)" by blast
  then have c2: "\<exists>r more. chat (\<lambda>q n m. ([] :: int chunk_info list)) (\<lambda>p. Inr p) (\<lambda>cs fs m. m)
          ready_session hello_request
        = (r, Retrieve ''summarize the code'' ''ns'' (Some 8000) # more)"
    by (simp add: hello_request_def ready_session_def)
  from c1 c2 r g show ?thesis by blast
qed

text \<open>
  A session whose root path is set but no longer exists on disk is not ready, and \<open>chat\<close>
  invokes the retrieval in it.
\<close>

theorem chat_retrieves_when_path_is_gone:
  "\<not> has_data (\<lambda>p. False) lost_session
   \<and> snd (chat (\<lambda>q n m. ([] :: int chunk_info list)) (\<lambda>p. Inr p) (\<lambda>cs fs m. m)
            lost_session hello_request)
       = [Retrieve ''summarize the code'' ''ns'' (Some 8000)]"
  by (simp add: has_data_def lost_session_def hello_request_def chat_def not_path_def)

section \<open>The reranked flag\<close>


lemma chat_flag_is_first:
  assumes "chat R A E s req = (JSONResponse body, calls)"
    and "retrieval_reranked (metadata body) = Some flag"
  shows "\<exists>c more. R (message req) (namespace s) (max_tokens req) = c # more \<and> flag = reranked c"
proof -
  let ?cs = "R (message req) (namespace s) (max_tokens req)"
  from assms have g: "\<not> (not_path (path s) \<or> files_processed s = 0)"
    by (auto simp: chat_def)
  from assms g have ne: "?cs \<noteq> []"
    by (auto simp: chat_def Let_def split: if_splits)
  then obtain c more where cs: "?cs = c # more" by (cases ?cs) auto
  from assms g cs have "flag = reranked c"
    by (auto simp: chat_def Let_def split: sum.splits)
  with cs show ?thesis by blast
qed

lemma chat_flag_uniform:
  assumes "chat (smart_retrieve index_search) A E s req = (JSONResponse body, calls)"
    and "retrieval_reranked (metadata body) = Some flag"
  shows "smart_retrieve index_search (message req) (namespace s) (max_tokens req) \<noteq> []
       \<and> list_all (\<lambda>c. reranked c = flag)
           (smart_retrieve index_search (message req) (namespace s) (max_tokens req))"
proof -
  let ?cs = "smart_retrieve index_search (message req) (namespace s) (max_tokens req)"
  from assms chat_flag_is_first [of "smart_retrieve index_search" A E s req body calls flag]
  obtain c more where cs: "?cs = c # more" and fl: "flag = reranked c" by blast
  obtain a where a: "analyze_query (message req) = Inr a" using analyze_query_total by blast
  have all: "list_all (\<lambda>c. reranked c = should_rerank a) ?cs"
    by (rule smart_retrieve_reranked [OF a])
  with cs fl have "flag = should_rerank a" by simp
  with all cs show ?thesis by simp
qed

lemma reranked_replicate:
  "list_all (\<lambda>c. reranked c = b) cs \<Longrightarrow> map reranked cs = replicate (length cs) b"
  by (induction cs) simp_all

text \<open>
  Claim C10. Every entry returned by one call of \<open>smart_retrieve\<close> carries the same
  \<open>reranked\<close> flag, the \<open>should_rerank\<close> of that query's analysis; and when \<open>chat\<close>
  answers with a \<open>retrieval_reranked\<close> field, read from the first entry, every returned
  entry carries that flag.
\<close>

theorem reranked_flag_uniform:
  "(\<exists>a. analyze_query q = Inr a
      \<and> list_all (\<lambda>c. reranked c = should_rerank a) (smart_retrieve index_search q ns mt))
   \<and> (chat (smart_retrieve index_search) A E s req = (JSONResponse body, calls)
        \<and> retrieval_reranked (metadata body) = Some flag \<longrightarrow>
       smart_retrieve index_search (message req) (namespace s) (max_tokens req) \<noteq> []
       \<and> list_all (\<lambda>c. reranked c = flag)
           (smart_retrieve index_search (message req) (namespace s) (max_tokens req)))"
proof -
  obtain a where a: "analyze_query q = Inr a" using analyze_query_total by blast
  have "list_all (\<lambda>c. reranked c = should_rerank a) (smart_retrieve index_search q ns mt)"
    by (rule smart_retrieve_reranked [OF a])
  with a have first: "\<exists>a. analyze_query q = Inr a
      \<and> list_all (\<lambda>c. reranked c = should_rerank a) (smart_retrieve index_search q ns mt)"
    by blast
  from first chat_flag_uniform [of index_search A E s req body calls flag]
  show ?thesis by blast
qed

lemma summarize_reranks:
  "classify_intent (lower ''summarize the code'') = ''summary''"
  by code_simp

theorem reranked_flag_uniform_witness:
  "map reranked
     (smart_retrieve (\<lambda>p. Inr [plain_hit ''abcdefgh'', plain_hit ''abcd''])
        ''summarize the code'' ''ns'' (Some 8000)) = [True, True]
   \<and> (\<exists>body calls.
        chat (smart_retrieve (\<lambda>p. Inr [plain_hit ''abcdefgh'', plain_hit ''abcd'']))
          (\<lambda>p. Inr ''ok'') (\<lambda>cs fs m. m) ready_session hello_request
          = (JSONResponse body, calls)
        \<and> retrieval_reranked (metadata body) = Some True)"
proof -
  let ?idx = "(\<lambda>p. Inr [plain_hit ''abcdefgh'', plain_hit ''abcd''])
                :: search_params \<Rightarrow> py_error + int hit list"
  let ?cs = "smart_retrieve ?idx ''summarize the code'' ''ns'' (Some 8000)"
  note t = reranked_flag_uniform [where q = "''summarize the code''" and index_search = ?idx
      and ns = "''ns''" and mt = "Some 8000"]
  then obtain a where a: "analyze_query ''summarize the code'' = Inr a"
    and all: "list_all (\<lambda>c. reranked c = should_rerank a) ?cs" by blast
  have rr: "should_rerank a"
    using analyze_query_fields(1) [OF a] analyze_query_fields(5) [OF a] summarize_reranks
    by (simp add: rerank_intents_def)
  have len: "length ?cs = 2"
    by (simp add: smart_retrieve_def a plain_hit_def estimate_tokens_def)
  from all rr have "list_all (\<lambda>c. reranked c = True) ?cs" by simp
  then have "map reranked ?cs = replicate (length ?cs) True"
    by (rule reranked_replicate)
  with len have m: "map reranked ?cs = [True, True]" by (simp add: numeral_2_eq_2)
  then obtain c1 c2 where cs: "?cs = [c1, c2]" and r1: "reranked c1 = True" by auto
  have "\<exists>body calls. chat (smart_retrieve ?idx) (\<lambda>p. Inr ''ok'') (\<lambda>cs fs m. m)
          ready_session hello_request = (JSONResponse body, calls)
        \<and> retrieval_reranked (metadata body) = Some True"
    using cs r1
    by (simp add: chat_def ready_session_def hello_request_def not_path_def Let_def)
  with m show ?thesis by blast
qed

end
